theory Spec2Isabelle
  imports Complex_Main
begin

section \<open>Data model\<close>

text \<open>
  The program is \<^verbatim>\<open>src/app.py\<close>, an HTTP facade over a lighting gateway. The
  entities it reads are objects of the gateway library; only the attributes that
  \<^verbatim>\<open>app.py\<close> touches are kept. Identifiers are strings, as in the data model of
  the specification; a mood id is an integer, as the route converter of
  \<^verbatim>\<open>selectAmbianceRoom\<close> makes it one.

  A device carries \<^verbatim>\<open>light_control\<close>, which the library leaves \<^verbatim>\<open>None\<close> for a
  device that is not a light; \<^verbatim>\<open>has_light_control\<close> tells the two apart, and
  \<^verbatim>\<open>light_control.lights[0]\<close> is the record \<open>light\<close>.
\<close>

type_synonym ident = string

record light =
  dimmer :: int
  state :: bool

record device =
  dev_id :: ident
  dev_name :: string
  light_control :: "light option"

definition has_light_control :: "device \<Rightarrow> bool" where
  "has_light_control d = (light_control d \<noteq> None)"

record mood =
  mood_id :: int
  mood_name :: string

record room =
  room_id :: ident
  room_name :: string
  member_ids :: "ident list"

text \<open>The dictionaries that \<^verbatim>\<open>fetch_description\<close> builds (lines 102-108, 114, 134-139).\<close>

record bulb =
  bulb_name :: string
  bulb_dimmer :: int
  bulb_state :: bool
  bulb_id :: ident

record ambiance =
  amb_name :: string
  amb_id :: int

record room_description =
  rd_name :: string
  rd_bulbs :: "bulb list"
  rd_ambiances :: "ambiance list"
  rd_id :: ident
  rd_ambiance_active :: int

type_synonym description = "room_description list"

text \<open>
  Exceptions are values. The first three are what the gateway library may raise; the
  last two are raised by the interpreter inside \<^verbatim>\<open>app.py\<close> itself: an attribute read
  on \<^verbatim>\<open>None\<close>, and the subtraction \<^verbatim>\<open>time.time() - None\<close>.
\<close>

datatype error = GatewayError | DeviceNotFound | GroupNotFound | AttributeError | TypeError

section \<open>The gateway client and the state of the process\<close>

text \<open>
  The gateway library is outside the repository. It is a parameter of the model: a
  record of operations over a world \<open>'w\<close> that the model knows nothing about, each
  returning a result or an exception together with the next world. So the gateway
  may fail at any call, answer differently from one call to the next, and time may
  pass during a call. \<open>connect\<close> stands for \<^verbatim>\<open>get_gateway_and_api()\<close> (lines 50-78),
  which reads the configuration file. \<open>get_devices\<close>, \<open>get_groups\<close> and \<open>get_moods\<close>
  each stand for the pair of nested \<^verbatim>\<open>api\<close> calls that lists the commands and then
  runs them (lines 84-86, 88-90, 110-112). \<open>time\<close> is \<^verbatim>\<open>time.time()\<close>, read as a real
  number.
\<close>

record 'w client =
  connect :: "'w \<Rightarrow> (error + unit) \<times> 'w"
  get_devices :: "'w \<Rightarrow> (error + device list) \<times> 'w"
  get_groups :: "'w \<Rightarrow> (error + room list) \<times> 'w"
  active_mood :: "room \<Rightarrow> 'w \<Rightarrow> (error + mood) \<times> 'w"
  get_moods :: "ident \<Rightarrow> 'w \<Rightarrow> (error + mood list) \<times> 'w"
  get_device :: "ident \<Rightarrow> 'w \<Rightarrow> (error + device) \<times> 'w"
  get_group :: "ident \<Rightarrow> 'w \<Rightarrow> (error + room) \<times> 'w"
  set_state :: "device \<Rightarrow> bool \<Rightarrow> 'w \<Rightarrow> (error + unit) \<times> 'w"
  set_dimmer :: "device \<Rightarrow> int \<Rightarrow> 'w \<Rightarrow> (error + unit) \<times> 'w"
  activate_mood :: "room \<Rightarrow> int \<Rightarrow> 'w \<Rightarrow> (error + unit) \<times> 'w"
  time :: "'w \<Rightarrow> real"

text \<open>
  What was asked of the outside, in order. \<open>Invalidate\<close> records a call of
  \<^verbatim>\<open>invalidate_description\<close>. The trace is a ghost field: the program never reads it.
\<close>

datatype event =
    Connect
  | ListDevices
  | ListGroups
  | ActiveMood ident
  | ListMoods ident
  | GetDevice ident
  | GetGroup ident
  | SetState ident bool
  | SetDimmer ident int
  | ActivateMood ident int
  | Invalidate

text \<open>
  The two module globals of lines 157-158, the world, and the trace. The lock of
  line 22 is not modelled: one handler runs at a time.
\<close>

record 'w sys =
  world :: 'w
  CACHED_RESPONSE :: "description option"
  LAST_FETCH :: "real option"
  trace :: "event list"

type_synonym ('w, 'a) handler = "'w sys \<Rightarrow> (error + 'a) \<times> 'w sys"

definition andthen :: "('w, 'a) handler \<Rightarrow> ('a \<Rightarrow> ('w, 'b) handler) \<Rightarrow> ('w, 'b) handler" where
  "andthen m f s = (case m s of (Inl e, s') \<Rightarrow> (Inl e, s') | (Inr a, s') \<Rightarrow> f a s')"

definition return :: "'a \<Rightarrow> ('w, 'a) handler" where
  "return a s = (Inr a, s)"

definition raise :: "error \<Rightarrow> ('w, 'a) handler" where
  "raise e s = (Inl e, s)"

text \<open>One request to the outside: it is logged, and the world moves on, also when it fails.\<close>

definition api :: "event \<Rightarrow> ('w \<Rightarrow> (error + 'a) \<times> 'w) \<Rightarrow> ('w, 'a) handler" where
  "api ev cmd s =
     (case cmd (world s) of (r, w') \<Rightarrow> (r, s\<lparr>world := w', trace := trace s @ [ev]\<rparr>))"

definition get_gateway_and_api :: "'w client \<Rightarrow> ('w, unit) handler" where
  "get_gateway_and_api gw = api Connect (connect gw)"

section \<open>The description builder\<close>

text \<open>
  Line 92: \<^verbatim>\<open>dict(map(lambda x: (x.id, x), devices))\<close>. A later device with the same
  id replaces an earlier one, and \<open>map_of\<close> returns the first match, hence \<open>rev\<close>.
\<close>

definition device_index :: "device list \<Rightarrow> (ident \<rightharpoonup> device)" where
  "device_index devices = map_of (rev (map (\<lambda>x. (dev_id x, x)) devices))"

text \<open>
  Lines 126-146, the loop over \<^verbatim>\<open>room_devices\<close>. An element is \<^verbatim>\<open>None\<close> when
  \<^verbatim>\<open>device_index.get(dev_id, None)\<close> found nothing, and then the attribute read
  \<^verbatim>\<open>device.has_light_control\<close> raises. The console table is not modelled.
\<close>

fun bulbs_loop :: "device option list \<Rightarrow> bulb list \<Rightarrow> error + bulb list" where
  "bulbs_loop [] bulbs = Inr bulbs"
| "bulbs_loop (None # ds) bulbs = Inl AttributeError"
| "bulbs_loop (Some d # ds) bulbs =
     (case light_control d of
        Some l \<Rightarrow>
          bulbs_loop ds (bulbs @ [\<lparr>bulb_name = dev_name d, bulb_dimmer = dimmer l,
                                   bulb_state = state l, bulb_id = dev_id d\<rparr>])
      | None \<Rightarrow> bulbs_loop ds bulbs)"

text \<open>Lines 98-152, the body of the loop over the rooms.\<close>

definition room_view :: "'w client \<Rightarrow> (ident \<rightharpoonup> device) \<Rightarrow> room \<Rightarrow> ('w, room_description) handler" where
  "room_view gw idx r =
     (let room_devices = map idx (member_ids r) in
      andthen (api (ActiveMood (room_id r)) (active_mood gw r)) (\<lambda>active_ambiance.
      andthen (api (ListMoods (room_id r)) (get_moods gw (room_id r))) (\<lambda>moods.
        case bulbs_loop room_devices [] of
          Inl e \<Rightarrow> raise e
        | Inr bulbs \<Rightarrow>
            return \<lparr>rd_name = room_name r,
                    rd_bulbs = bulbs,
                    rd_ambiances = map (\<lambda>m. \<lparr>amb_name = mood_name m, amb_id = mood_id m\<rparr>) moods,
                    rd_id = room_id r,
                    rd_ambiance_active = mood_id active_ambiance\<rparr>)))"

fun rooms_loop ::
  "'w client \<Rightarrow> (ident \<rightharpoonup> device) \<Rightarrow> room list \<Rightarrow> description \<Rightarrow> ('w, description) handler" where
  "rooms_loop gw idx [] result s = (Inr result, s)"
| "rooms_loop gw idx (r # rs) result s =
     (case room_view gw idx r s of
        (Inl e, s') \<Rightarrow> (Inl e, s')
      | (Inr room_description, s') \<Rightarrow> rooms_loop gw idx rs (result @ [room_description]) s')"

definition fetch_description :: "'w client \<Rightarrow> ('w, description) handler" where
  "fetch_description gw =
     andthen (get_gateway_and_api gw) (\<lambda>_.
     andthen (api ListDevices (get_devices gw)) (\<lambda>devices.
     andthen (api ListGroups (get_groups gw)) (\<lambda>groups.
       rooms_loop gw (device_index devices) groups [])))"

section \<open>The description cache\<close>

text \<open>
  Line 166, the condition \<^verbatim>\<open>CACHED_RESPONSE is None or (time.time() - LAST_FETCH) > 10.0\<close>.
  The right operand is evaluated only when the left one is false, and the
  subtraction raises when \<^verbatim>\<open>LAST_FETCH\<close> is \<^verbatim>\<open>None\<close>.
\<close>

definition must_fetch :: "'w client \<Rightarrow> 'w sys \<Rightarrow> error + bool" where
  "must_fetch gw s =
     (case CACHED_RESPONSE s of
        None \<Rightarrow> Inr True
      | Some _ \<Rightarrow>
          (case LAST_FETCH s of
             None \<Rightarrow> Inl TypeError
           | Some t \<Rightarrow> Inr (time gw (world s) - t > 10)))"

text \<open>
  Lines 167-168: the two assignments happen only once \<^verbatim>\<open>fetch_description\<close> has
  returned; the clock is read again after it.
\<close>

definition refresh :: "'w client \<Rightarrow> ('w, unit) handler" where
  "refresh gw s =
     (case fetch_description gw s of
        (Inl e, s') \<Rightarrow> (Inl e, s')
      | (Inr d, s') \<Rightarrow>
          (Inr (), s'\<lparr>CACHED_RESPONSE := Some d, LAST_FETCH := Some (time gw (world s'))\<rparr>))"

text \<open>
  Lines 161-172. The function returns whatever \<^verbatim>\<open>CACHED_RESPONSE\<close> holds at line 169,
  so the result is an option; an exception leaves through \<^verbatim>\<open>finally\<close> unchanged.
\<close>

definition get_description :: "'w client \<Rightarrow> ('w, description option) handler" where
  "get_description gw s =
     (case must_fetch gw s of
        Inl e \<Rightarrow> (Inl e, s)
      | Inr stale \<Rightarrow>
          (case (if stale then refresh gw s else (Inr (), s)) of
             (Inl e, s') \<Rightarrow> (Inl e, s')
           | (Inr _, s') \<Rightarrow> (Inr (CACHED_RESPONSE s'), s')))"

text \<open>Lines 175-177: only \<^verbatim>\<open>CACHED_RESPONSE\<close> is declared global and assigned.\<close>

definition invalidate_description :: "('w, unit) handler" where
  "invalidate_description s = (Inr (), s\<lparr>CACHED_RESPONSE := None, trace := trace s @ [Invalidate]\<rparr>)"

definition initial :: "'w \<Rightarrow> 'w sys" where
  "initial w = \<lparr>world = w, CACHED_RESPONSE = None, LAST_FETCH = None, trace = []\<rparr>"

section \<open>The command dispatcher\<close>

text \<open>
  \<^verbatim>\<open>device.light_control.set_state(...)\<close> and \<^verbatim>\<open>set_dimmer(...)\<close>: the attribute read on
  \<^verbatim>\<open>light_control\<close> raises when the device is not a light.
\<close>

definition light_set_state :: "'w client \<Rightarrow> device \<Rightarrow> bool \<Rightarrow> ('w, unit) handler" where
  "light_set_state gw d b =
     (case light_control d of
        None \<Rightarrow> raise AttributeError
      | Some _ \<Rightarrow> api (SetState (dev_id d) b) (set_state gw d b))"

definition light_set_dimmer :: "'w client \<Rightarrow> device \<Rightarrow> int \<Rightarrow> ('w, unit) handler" where
  "light_set_dimmer gw d v =
     (case light_control d of
        None \<Rightarrow> raise AttributeError
      | Some _ \<Rightarrow> api (SetDimmer (dev_id d) v) (set_dimmer gw d v))"

text \<open>Lines 187-220. The parameter \<open>room\<close> is bound by the route and never read.\<close>

definition switchOffBulb :: "'w client \<Rightarrow> ident \<Rightarrow> ident \<Rightarrow> ('w, string) handler" where
  "switchOffBulb gw room bulb =
     andthen (get_gateway_and_api gw) (\<lambda>_.
     andthen (api (GetDevice bulb) (get_device gw bulb)) (\<lambda>devices_commands.
     andthen (light_set_state gw devices_commands False) (\<lambda>_.
     andthen invalidate_description (\<lambda>_.
       return ''''))))"

definition switchOnBulb :: "'w client \<Rightarrow> ident \<Rightarrow> ident \<Rightarrow> ('w, string) handler" where
  "switchOnBulb gw room bulb =
     andthen (get_gateway_and_api gw) (\<lambda>_.
     andthen (api (GetDevice bulb) (get_device gw bulb)) (\<lambda>devices_commands.
     andthen (light_set_state gw devices_commands True) (\<lambda>_.
     andthen invalidate_description (\<lambda>_.
       return ''''))))"

definition setDimmerBulb :: "'w client \<Rightarrow> ident \<Rightarrow> ident \<Rightarrow> int \<Rightarrow> ('w, string) handler" where
  "setDimmerBulb gw room bulb v =
     andthen (get_gateway_and_api gw) (\<lambda>_.
     andthen (api (GetDevice bulb) (get_device gw bulb)) (\<lambda>devices_commands.
     andthen (light_set_dimmer gw devices_commands v) (\<lambda>_.
     andthen invalidate_description (\<lambda>_.
       return ''''))))"

text \<open>
  The loop of lines 229-232, 243-246 and 257-260, which differ only in the bulb
  handler they call; that handler is the parameter \<open>bulb_handler\<close>. The library's
  \<^verbatim>\<open>members()\<close> is one get-device command for each member id.
\<close>

fun for_members ::
  "'w client \<Rightarrow> (ident \<Rightarrow> ('w, string) handler) \<Rightarrow> ident list \<Rightarrow> ('w, unit) handler" where
  "for_members gw bulb_handler [] s = (Inr (), s)"
| "for_members gw bulb_handler (m # ms) s =
     (case api (GetDevice m) (get_device gw m) s of
        (Inl e, s1) \<Rightarrow> (Inl e, s1)
      | (Inr member, s1) \<Rightarrow>
          if has_light_control member then
            (case bulb_handler (dev_id member) s1 of
               (Inl e, s2) \<Rightarrow> (Inl e, s2)
             | (Inr _, s2) \<Rightarrow> for_members gw bulb_handler ms s2)
          else for_members gw bulb_handler ms s1)"

text \<open>Lines 223-262, the three room handlers.\<close>

definition switchOffRoom :: "'w client \<Rightarrow> ident \<Rightarrow> ('w, string) handler" where
  "switchOffRoom gw room =
     andthen (get_gateway_and_api gw) (\<lambda>_.
     andthen (api (GetGroup room) (get_group gw room)) (\<lambda>group_commands.
     andthen (for_members gw (switchOffBulb gw room) (member_ids group_commands)) (\<lambda>_.
     andthen invalidate_description (\<lambda>_.
       return ''''))))"

definition switchOnRoom :: "'w client \<Rightarrow> ident \<Rightarrow> ('w, string) handler" where
  "switchOnRoom gw room =
     andthen (get_gateway_and_api gw) (\<lambda>_.
     andthen (api (GetGroup room) (get_group gw room)) (\<lambda>group_commands.
     andthen (for_members gw (switchOnBulb gw room) (member_ids group_commands)) (\<lambda>_.
     andthen invalidate_description (\<lambda>_.
       return ''''))))"

definition setDimmerRoom :: "'w client \<Rightarrow> ident \<Rightarrow> int \<Rightarrow> ('w, string) handler" where
  "setDimmerRoom gw room v =
     andthen (get_gateway_and_api gw) (\<lambda>_.
     andthen (api (GetGroup room) (get_group gw room)) (\<lambda>group_commands.
     andthen (for_members gw (\<lambda>bulb. setDimmerBulb gw room bulb v) (member_ids group_commands)) (\<lambda>_.
     andthen invalidate_description (\<lambda>_.
       return ''''))))"

text \<open>Lines 265-273.\<close>

definition selectAmbianceRoom :: "'w client \<Rightarrow> ident \<Rightarrow> int \<Rightarrow> ('w, string) handler" where
  "selectAmbianceRoom gw room a =
     andthen (get_gateway_and_api gw) (\<lambda>_.
     andthen (api (GetGroup room) (get_group gw room)) (\<lambda>group_commands.
     andthen (api (ActivateMood (room_id group_commands) a) (activate_mood gw group_commands a)) (\<lambda>_.
     andthen invalidate_description (\<lambda>_.
       return ''''))))"

section \<open>Reachable states\<close>

text \<open>
  The process starts with both globals \<^verbatim>\<open>None\<close> (lines 157-158), builds one
  description for the console (line 277) and then serves requests, one handler at a
  time. Between two requests the world may change in any way: time passes, bulbs
  are switched by hand. A handler that raises leaves the state it had reached.
\<close>

inductive reachable :: "'w client \<Rightarrow> 'w sys \<Rightarrow> bool" for gw :: "'w client" where
  start: "reachable gw (initial w)"
| outside: "reachable gw s \<Longrightarrow> reachable gw (s\<lparr>world := w\<rparr>)"
| main: "reachable gw s \<Longrightarrow> reachable gw (snd (fetch_description gw s))"
| description: "reachable gw s \<Longrightarrow> reachable gw (snd (get_description gw s))"
| bulb_off: "reachable gw s \<Longrightarrow> reachable gw (snd (switchOffBulb gw room bulb s))"
| bulb_on: "reachable gw s \<Longrightarrow> reachable gw (snd (switchOnBulb gw room bulb s))"
| bulb_dimmer: "reachable gw s \<Longrightarrow> reachable gw (snd (setDimmerBulb gw room bulb v s))"
| room_off: "reachable gw s \<Longrightarrow> reachable gw (snd (switchOffRoom gw room s))"
| room_on: "reachable gw s \<Longrightarrow> reachable gw (snd (switchOnRoom gw room s))"
| room_dimmer: "reachable gw s \<Longrightarrow> reachable gw (snd (setDimmerRoom gw room v s))"
| room_ambiance: "reachable gw s \<Longrightarrow> reachable gw (snd (selectAmbianceRoom gw room a s))"

section \<open>Reading a trace\<close>

text \<open>What a handler added to the trace, and two counters over it.\<close>

definition new_events :: "'w sys \<Rightarrow> 'w sys \<Rightarrow> event list" where
  "new_events s s' = drop (length (trace s)) (trace s')"

fun is_light_command :: "event \<Rightarrow> bool" where
  "is_light_command (SetState i b) = True"
| "is_light_command (SetDimmer i v) = True"
| "is_light_command ev = False"

definition light_commands :: "event list \<Rightarrow> event list" where
  "light_commands es = filter is_light_command es"

definition invalidations :: "event list \<Rightarrow> nat" where
  "invalidations es = length (filter (\<lambda>ev. ev = Invalidate) es)"

section \<open>A house to run the handlers on\<close>

text \<open>
  A gateway with three devices, two lamps \<open>a\<close> and \<open>c\<close> and a remote control \<open>b\<close>,
  and one room \<open>r\<close>. Its world is a clock in seconds that only the outside moves.
  The parameters say whether the configuration can be read, which ids the room
  lists as members, and which lamps reject commands.
\<close>

definition lamp :: "ident \<Rightarrow> device" where
  "lamp i = \<lparr>dev_id = i, dev_name = i, light_control = Some \<lparr>dimmer = 10, state = True\<rparr>\<rparr>"

definition remote :: "ident \<Rightarrow> device" where
  "remote i = \<lparr>dev_id = i, dev_name = i, light_control = None\<rparr>"

definition house_device :: "ident \<Rightarrow> device" where
  "house_device i = (if i = ''b'' then remote i else lamp i)"

definition house_room :: "ident list \<Rightarrow> room" where
  "house_room members = \<lparr>room_id = ''r'', room_name = ''Room'', member_ids = members\<rparr>"

definition relax :: mood where
  "relax = \<lparr>mood_id = 1, mood_name = ''Relax''\<rparr>"

definition house :: "bool \<Rightarrow> ident list \<Rightarrow> ident list \<Rightarrow> nat client" where
  "house up members broken =
     \<lparr>connect = (\<lambda>w. (if up then Inr () else Inl GatewayError, w)),
      get_devices = (\<lambda>w. (Inr [lamp ''a'', remote ''b'', lamp ''c''], w)),
      get_groups = (\<lambda>w. (Inr [house_room members], w)),
      active_mood = (\<lambda>r w. (Inr relax, w)),
      get_moods = (\<lambda>i w. (Inr [relax], w)),
      get_device = (\<lambda>i w. (Inr (house_device i), w)),
      get_group = (\<lambda>i w. (Inr (house_room members), w)),
      set_state = (\<lambda>d b w. (if dev_id d \<in> set broken then Inl GatewayError else Inr (), w)),
      set_dimmer = (\<lambda>d v w. (if dev_id d \<in> set broken then Inl GatewayError else Inr (), w)),
      activate_mood = (\<lambda>r a w. (Inr (), w)),
      time = real\<rparr>"

section \<open>Frame conditions\<close>

text \<open>
  Relations between the state before and after a handler: the two globals are
  untouched; the timestamp is untouched and the value is kept or cleared; the trace
  is extended. \<open>frames R h\<close> says that every run of \<open>h\<close> is within \<open>R\<close>.
\<close>

definition same_cache :: "'w sys \<Rightarrow> 'w sys \<Rightarrow> bool" where
  "same_cache s s' = (CACHED_RESPONSE s' = CACHED_RESPONSE s \<and> LAST_FETCH s' = LAST_FETCH s)"

definition clears :: "'w sys \<Rightarrow> 'w sys \<Rightarrow> bool" where
  "clears s s' =
     (LAST_FETCH s' = LAST_FETCH s \<and>
      (CACHED_RESPONSE s' = CACHED_RESPONSE s \<or> CACHED_RESPONSE s' = None))"

definition grows :: "'w sys \<Rightarrow> 'w sys \<Rightarrow> bool" where
  "grows s s' = (\<exists>es. trace s' = trace s @ es)"

definition frames :: "('w sys \<Rightarrow> 'w sys \<Rightarrow> bool) \<Rightarrow> ('w, 'a) handler \<Rightarrow> bool" where
  "frames R h = (\<forall>s. R s (snd (h s)))"

section \<open>The rebuild condition of the specification\<close>

text \<open>
  The condition for a rebuild in the words of the specification, to be compared with
  \<open>must_fetch\<close>: the entry is absent, or the clock is more than ten seconds past the
  stored timestamp.
\<close>

definition rebuild_due :: "'w client \<Rightarrow> 'w sys \<Rightarrow> bool" where
  "rebuild_due gw s =
     (CACHED_RESPONSE s = None \<or>
      (case LAST_FETCH s of None \<Rightarrow> False | Some t \<Rightarrow> time gw (world s) - t > 10))"

section \<open>Tools for the fan-out\<close>

text \<open>The shape shared by the three room handlers.\<close>

definition room_call ::
  "'w client \<Rightarrow> (ident \<Rightarrow> ('w, string) handler) \<Rightarrow> ident \<Rightarrow> ('w, string) handler" where
  "room_call gw h room =
     andthen (get_gateway_and_api gw) (\<lambda>_.
     andthen (api (GetGroup room) (get_group gw room)) (\<lambda>group_commands.
     andthen (for_members gw h (member_ids group_commands)) (\<lambda>_.
     andthen invalidate_description (\<lambda>_.
       return ''''))))"


section \<open>Example houses and states\<close>

text \<open>
  The house with all three devices in the room and nothing broken, and its cache
  after a first \<^verbatim>\<open>get_description\<close> at second 0.
\<close>

definition home :: "nat client" where
  "home = house True [''a'', ''b'', ''c''] []"

definition filled_at_0 :: "nat sys" where
  "filled_at_0 = snd (get_description home (initial 0))"

text \<open>A cache filled at second 0 with an empty description, read at second 11.\<close>

definition stale_cache :: "nat sys" where
  "stale_cache = \<lparr>world = 11, CACHED_RESPONSE = Some [], LAST_FETCH = Some 0, trace = []\<rparr>"

text \<open>
  A house whose lamp \<open>a\<close> rejects every command, the remote control listed first; and
  the state of a process that has neither filled its cache nor seen the clock move,
  with a given trace.
\<close>

definition flaky :: "nat client" where
  "flaky = house True [''b'', ''a'', ''c''] [''a'']"

definition at_start :: "event list \<Rightarrow> nat sys" where
  "at_start es = \<lparr>world = 0, CACHED_RESPONSE = None, LAST_FETCH = None, trace = es\<rparr>"



section \<open>Frame lemmas\<close>

lemmas run_defs = andthen_def return_def raise_def api_def get_gateway_and_api_def
  invalidate_description_def
lemmas house_defs = house_def lamp_def remote_def house_device_def house_room_def relax_def

lemma framesD: "frames R h \<Longrightarrow> h s = (r, s') \<Longrightarrow> R s s'"
  by (auto simp: frames_def dest: spec [of _ s])

lemma frames_andthen:
  assumes "transp R" and "frames R m" and "\<And>a. frames R (f a)"
  shows "frames R (andthen m f)"
  unfolding frames_def
proof
  fix s
  obtain r s1 where m: "m s = (r, s1)" by (cases "m s")
  have 1: "R s s1" using assms(2) m by (rule framesD)
  show "R s (snd (andthen m f s))"
  proof (cases r)
    case (Inl e)
    then show ?thesis using m 1 by (simp add: andthen_def)
  next
    case (Inr a)
    obtain r2 s2 where f: "f a s1 = (r2, s2)" by (cases "f a s1")
    have "R s1 s2" using assms(3) f by (rule framesD)
    with 1 have "R s s2" using assms(1) by (auto dest: transpD)
    then show ?thesis using m Inr f by (simp add: andthen_def)
  qed
qed

lemma transp_same_cache: "transp same_cache"
  by (auto simp: transp_def same_cache_def)

lemma transp_clears: "transp clears"
  by (auto simp: transp_def clears_def)

lemma transp_grows: "transp grows"
  by (auto simp: transp_def grows_def)

lemma same_cache_clears: "same_cache s s' \<Longrightarrow> clears s s'"
  by (simp add: same_cache_def clears_def)

lemma frames_weaken: "frames R h \<Longrightarrow> (\<And>s s'. R s s' \<Longrightarrow> R' s s') \<Longrightarrow> frames R' h"
  by (simp add: frames_def)

lemma frames_api_same: "frames same_cache (api ev cmd)"
  by (simp add: frames_def same_cache_def api_def split: prod.splits)

lemma frames_api_grows: "frames grows (api ev cmd)"
  by (simp add: frames_def grows_def api_def split: prod.splits)

lemma frames_return: "reflp R \<Longrightarrow> frames R (return a)"
  by (simp add: frames_def return_def reflpD)

lemma frames_raise: "reflp R \<Longrightarrow> frames R (raise e)"
  by (simp add: frames_def raise_def reflpD)

lemma reflp_same_cache: "reflp same_cache"
  by (simp add: reflp_def same_cache_def)

lemma reflp_clears: "reflp clears"
  by (simp add: reflp_def clears_def)

lemma reflp_grows: "reflp grows"
  by (simp add: reflp_def grows_def)

lemma frames_room_view_same: "frames same_cache (room_view gw idx r)"
  unfolding room_view_def Let_def
  by (intro frames_andthen transp_same_cache frames_api_same)
     (auto split: sum.splits intro: frames_return frames_raise reflp_same_cache)

lemma frames_room_view_grows: "frames grows (room_view gw idx r)"
  unfolding room_view_def Let_def
  by (intro frames_andthen transp_grows frames_api_grows)
     (auto split: sum.splits intro: frames_return frames_raise reflp_grows)

lemma rooms_loop_frames:
  assumes "transp R" and "reflp R" and "\<And>r. frames R (room_view gw idx r)"
  shows "R s (snd (rooms_loop gw idx rs result s))"
proof (induction rs arbitrary: result s)
  case Nil
  show ?case using assms(2) by (simp add: reflpD)
next
  case (Cons r rs)
  obtain x s1 where v: "room_view gw idx r s = (x, s1)" by (cases "room_view gw idx r s")
  have 1: "R s s1" using assms(3) v by (rule framesD)
  show ?case
  proof (cases x)
    case (Inl e)
    then show ?thesis using v 1 by simp
  next
    case (Inr d)
    have "R s1 (snd (rooms_loop gw idx rs (result @ [d]) s1))" by (rule Cons.IH)
    with 1 have "R s (snd (rooms_loop gw idx rs (result @ [d]) s1))"
      using assms(1) by (auto dest: transpD)
    then show ?thesis using v Inr by simp
  qed
qed

lemma frames_rooms_loop:
  "transp R \<Longrightarrow> reflp R \<Longrightarrow> (\<And>r. frames R (room_view gw idx r)) \<Longrightarrow>
     frames R (rooms_loop gw idx rs result)"
  unfolding frames_def by (blast intro: rooms_loop_frames [unfolded frames_def])

lemma frames_fetch_description_same: "frames same_cache (fetch_description gw)"
  unfolding fetch_description_def get_gateway_and_api_def
  by (intro frames_andthen frames_rooms_loop transp_same_cache reflp_same_cache
        frames_api_same frames_room_view_same)

lemma frames_fetch_tail_grows:
  "frames grows (andthen (api ListDevices (get_devices gw)) (\<lambda>devices.
     andthen (api ListGroups (get_groups gw)) (\<lambda>groups.
       rooms_loop gw (device_index devices) groups [])))"
  by (intro frames_andthen frames_rooms_loop transp_grows reflp_grows
        frames_api_grows frames_room_view_grows)

lemma fetch_description_trace:
  "\<exists>es. trace (snd (fetch_description gw s)) = trace s @ Connect # es"
proof -
  let ?tail = "andthen (api ListDevices (get_devices gw)) (\<lambda>devices.
     andthen (api ListGroups (get_groups gw)) (\<lambda>groups.
       rooms_loop gw (device_index devices) groups []))"
  obtain r w1 where c: "connect gw (world s) = (r, w1)" by (cases "connect gw (world s)")
  let ?s1 = "s\<lparr>world := w1, trace := trace s @ [Connect]\<rparr>"
  show ?thesis
  proof (cases r)
    case (Inl e)
    then show ?thesis using c
      by (simp add: fetch_description_def run_defs)
  next
    case (Inr u)
    have "grows ?s1 (snd (?tail ?s1))"
      using frames_fetch_tail_grows [of gw] by (simp add: frames_def)
    then obtain es where "trace (snd (?tail ?s1)) = trace s @ Connect # es"
      by (auto simp: grows_def)
    moreover have "fetch_description gw s = ?tail ?s1"
      using c Inr by (simp add: fetch_description_def andthen_def api_def get_gateway_and_api_def)
    ultimately show ?thesis by auto
  qed
qed

lemma fetch_description_cache:
  "fetch_description gw s = (r, s') \<Longrightarrow>
     CACHED_RESPONSE s' = CACHED_RESPONSE s \<and> LAST_FETCH s' = LAST_FETCH s"
  using framesD [OF frames_fetch_description_same, of gw s r s'] by (simp add: same_cache_def)

section \<open>What the handlers do to the cache\<close>

lemma frames_api_clears: "frames clears (api ev cmd)"
  by (rule frames_weaken [OF frames_api_same]) (rule same_cache_clears)

lemma frames_invalidate_clears: "frames clears invalidate_description"
  by (simp add: frames_def clears_def invalidate_description_def)

lemma frames_invalidate_grows: "frames grows invalidate_description"
  by (simp add: frames_def grows_def invalidate_description_def)

lemma frames_light_set_state:
  "reflp R \<Longrightarrow> (\<And>ev cmd. frames R (api ev (cmd :: 'w \<Rightarrow> (error + unit) \<times> 'w))) \<Longrightarrow>
     frames R (light_set_state (gw :: 'w client) d b)"
  by (auto simp: light_set_state_def split: option.splits intro: frames_raise)

lemma frames_light_set_dimmer:
  "reflp R \<Longrightarrow> (\<And>ev cmd. frames R (api ev (cmd :: 'w \<Rightarrow> (error + unit) \<times> 'w))) \<Longrightarrow>
     frames R (light_set_dimmer (gw :: 'w client) d v)"
  by (auto simp: light_set_dimmer_def split: option.splits intro: frames_raise)

lemma frames_switchOffBulb_clears: "frames clears (switchOffBulb gw room bulb)"
  unfolding switchOffBulb_def get_gateway_and_api_def
  by (intro frames_andthen transp_clears frames_api_clears frames_light_set_state
        frames_invalidate_clears frames_return reflp_clears)

lemma frames_switchOnBulb_clears: "frames clears (switchOnBulb gw room bulb)"
  unfolding switchOnBulb_def get_gateway_and_api_def
  by (intro frames_andthen transp_clears frames_api_clears frames_light_set_state
        frames_invalidate_clears frames_return reflp_clears)

lemma frames_setDimmerBulb_clears: "frames clears (setDimmerBulb gw room bulb v)"
  unfolding setDimmerBulb_def get_gateway_and_api_def
  by (intro frames_andthen transp_clears frames_api_clears frames_light_set_dimmer
        frames_invalidate_clears frames_return reflp_clears)

lemma for_members_frames:
  assumes "transp R" and "reflp R"
    and "\<And>m. frames R (api (GetDevice m) (get_device gw m))"
    and "\<And>b. frames R (h b)"
  shows "R s (snd (for_members gw h ms s))"
proof (induction ms arbitrary: s)
  case Nil
  show ?case using assms(2) by (simp add: reflpD)
next
  case (Cons m ms)
  obtain x s1 where a: "api (GetDevice m) (get_device gw m) s = (x, s1)"
    by (cases "api (GetDevice m) (get_device gw m) s")
  have 1: "R s s1" using assms(3) a by (rule framesD)
  show ?case
  proof (cases x)
    case (Inl e)
    then show ?thesis using a 1 by simp
  next
    case (Inr member)
    show ?thesis
    proof (cases "has_light_control member")
      case False
      have "R s1 (snd (for_members gw h ms s1))" by (rule Cons.IH)
      with 1 have "R s (snd (for_members gw h ms s1))" using assms(1) by (auto dest: transpD)
      then show ?thesis using a Inr False by simp
    next
      case True
      obtain y s2 where b: "h (dev_id member) s1 = (y, s2)" by (cases "h (dev_id member) s1")
      have "R s1 s2" using assms(4) b by (rule framesD)
      with 1 have 2: "R s s2" using assms(1) by (auto dest: transpD)
      show ?thesis
      proof (cases y)
        case (Inl e)
        then show ?thesis using a Inr True b 2 by simp
      next
        case (Inr r)
        have "R s2 (snd (for_members gw h ms s2))" by (rule Cons.IH)
        with 2 have "R s (snd (for_members gw h ms s2))" using assms(1) by (auto dest: transpD)
        then show ?thesis using a \<open>x = Inr member\<close> True b Inr by simp
      qed
    qed
  qed
qed

lemma frames_for_members:
  "transp R \<Longrightarrow> reflp R \<Longrightarrow> (\<And>m. frames R (api (GetDevice m) (get_device gw m))) \<Longrightarrow>
     (\<And>b. frames R (h b)) \<Longrightarrow> frames R (for_members gw h ms)"
  unfolding frames_def by (blast intro: for_members_frames [unfolded frames_def])

lemma frames_switchOffRoom_clears: "frames clears (switchOffRoom gw room)"
  unfolding switchOffRoom_def get_gateway_and_api_def
  by (intro frames_andthen frames_for_members transp_clears frames_api_clears
        frames_switchOffBulb_clears frames_invalidate_clears frames_return reflp_clears)

lemma frames_switchOnRoom_clears: "frames clears (switchOnRoom gw room)"
  unfolding switchOnRoom_def get_gateway_and_api_def
  by (intro frames_andthen frames_for_members transp_clears frames_api_clears
        frames_switchOnBulb_clears frames_invalidate_clears frames_return reflp_clears)

lemma frames_setDimmerRoom_clears: "frames clears (setDimmerRoom gw room v)"
  unfolding setDimmerRoom_def get_gateway_and_api_def
  by (intro frames_andthen frames_for_members transp_clears frames_api_clears
        frames_setDimmerBulb_clears frames_invalidate_clears frames_return reflp_clears)

lemma frames_selectAmbianceRoom_clears: "frames clears (selectAmbianceRoom gw room a)"
  unfolding selectAmbianceRoom_def get_gateway_and_api_def
  by (intro frames_andthen transp_clears frames_api_clears
        frames_invalidate_clears frames_return reflp_clears)

lemma clears_timestamped:
  "clears s s' \<Longrightarrow> CACHED_RESPONSE s \<noteq> None \<longrightarrow> LAST_FETCH s \<noteq> None \<Longrightarrow>
     CACHED_RESPONSE s' \<noteq> None \<longrightarrow> LAST_FETCH s' \<noteq> None"
  by (auto simp: clears_def)

lemma get_description_timestamped:
  "CACHED_RESPONSE (snd (get_description gw s)) \<noteq> None \<longrightarrow>
     LAST_FETCH (snd (get_description gw s)) \<noteq> None"
  if "CACHED_RESPONSE s \<noteq> None \<longrightarrow> LAST_FETCH s \<noteq> None"
proof -
  obtain r s1 where f: "fetch_description gw s = (r, s1)" by (cases "fetch_description gw s")
  have "CACHED_RESPONSE s1 = CACHED_RESPONSE s \<and> LAST_FETCH s1 = LAST_FETCH s"
    using f by (rule fetch_description_cache)
  then show ?thesis using that f
    by (auto simp: get_description_def refresh_def must_fetch_def
          split: option.splits sum.splits if_splits)
qed

lemma get_description_absent_together:
  "(CACHED_RESPONSE (snd (get_description gw s)) = None) =
     (LAST_FETCH (snd (get_description gw s)) = None)"
  if "(CACHED_RESPONSE s = None) = (LAST_FETCH s = None)"
proof -
  obtain r s1 where f: "fetch_description gw s = (r, s1)" by (cases "fetch_description gw s")
  have "CACHED_RESPONSE s1 = CACHED_RESPONSE s \<and> LAST_FETCH s1 = LAST_FETCH s"
    using f by (rule fetch_description_cache)
  then show ?thesis using that f
    by (auto simp: get_description_def refresh_def must_fetch_def
          split: option.splits sum.splits if_splits)
qed

lemma reachable_timestamped:
  "reachable gw s \<Longrightarrow> CACHED_RESPONSE s \<noteq> None \<longrightarrow> LAST_FETCH s \<noteq> None"
proof (induction rule: reachable.induct)
  case (start w)
  show ?case by (simp add: initial_def)
next
  case (outside s w)
  show ?case using outside.IH by simp
next
  case (main s)
  have "same_cache s (snd (fetch_description gw s))"
    using frames_fetch_description_same [of gw] by (simp add: frames_def)
  then show ?case using main.IH by (simp add: same_cache_def)
next
  case (description s)
  show ?case using description.IH by (rule get_description_timestamped)
next
  case (bulb_off s room bulb)
  have "clears s (snd (switchOffBulb gw room bulb s))"
    using frames_switchOffBulb_clears [of gw room bulb] by (simp add: frames_def)
  then show ?case using bulb_off.IH by (rule clears_timestamped)
next
  case (bulb_on s room bulb)
  have "clears s (snd (switchOnBulb gw room bulb s))"
    using frames_switchOnBulb_clears [of gw room bulb] by (simp add: frames_def)
  then show ?case using bulb_on.IH by (rule clears_timestamped)
next
  case (bulb_dimmer s room bulb v)
  have "clears s (snd (setDimmerBulb gw room bulb v s))"
    using frames_setDimmerBulb_clears [of gw room bulb v] by (simp add: frames_def)
  then show ?case using bulb_dimmer.IH by (rule clears_timestamped)
next
  case (room_off s room)
  have "clears s (snd (switchOffRoom gw room s))"
    using frames_switchOffRoom_clears [of gw room] by (simp add: frames_def)
  then show ?case using room_off.IH by (rule clears_timestamped)
next
  case (room_on s room)
  have "clears s (snd (switchOnRoom gw room s))"
    using frames_switchOnRoom_clears [of gw room] by (simp add: frames_def)
  then show ?case using room_on.IH by (rule clears_timestamped)
next
  case (room_dimmer s room v)
  have "clears s (snd (setDimmerRoom gw room v s))"
    using frames_setDimmerRoom_clears [of gw room v] by (simp add: frames_def)
  then show ?case using room_dimmer.IH by (rule clears_timestamped)
next
  case (room_ambiance s room a)
  have "clears s (snd (selectAmbianceRoom gw room a s))"
    using frames_selectAmbianceRoom_clears [of gw room a] by (simp add: frames_def)
  then show ?case using room_ambiance.IH by (rule clears_timestamped)
qed

section \<open>The example cache\<close>

lemmas eval_defs = get_description_def must_fetch_def refresh_def fetch_description_def
  room_view_def device_index_def run_defs house_defs initial_def

lemma filled_at_0_eq:
  "filled_at_0 =
     \<lparr>world = 0,
      CACHED_RESPONSE = Some [\<lparr>rd_name = ''Room'',
          rd_bulbs =
            [\<lparr>bulb_name = ''a'', bulb_dimmer = 10, bulb_state = True, bulb_id = ''a''\<rparr>,
             \<lparr>bulb_name = ''c'', bulb_dimmer = 10, bulb_state = True, bulb_id = ''c''\<rparr>],
          rd_ambiances = [\<lparr>amb_name = ''Relax'', amb_id = 1\<rparr>],
          rd_id = ''r'', rd_ambiance_active = 1\<rparr>],
      LAST_FETCH = Some 0,
      trace = [Connect, ListDevices, ListGroups, ActiveMood ''r'', ListMoods ''r'']\<rparr>"
  by (simp add: filled_at_0_def home_def eval_defs)

lemma reachable_filled_at_0: "reachable home filled_at_0"
  unfolding filled_at_0_def by (intro reachable.description reachable.start)

section \<open>Traces of the dispatcher\<close>

lemma light_commands_append [simp]: "light_commands (xs @ ys) = light_commands xs @ light_commands ys"
  by (simp add: light_commands_def)

lemma invalidations_append [simp]: "invalidations (xs @ ys) = invalidations xs + invalidations ys"
  by (simp add: invalidations_def)

lemma light_commands_Nil [simp]: "light_commands [] = []"
  by (simp add: light_commands_def)

lemma light_commands_Cons [simp]:
  "light_commands (e # es) = (if is_light_command e then e # light_commands es else light_commands es)"
  by (simp add: light_commands_def)

lemma invalidations_Nil [simp]: "invalidations [] = 0"
  by (simp add: invalidations_def)

lemma invalidations_Cons [simp]:
  "invalidations (e # es) = (if e = Invalidate then Suc (invalidations es) else invalidations es)"
  by (simp add: invalidations_def)

lemma new_events_append: "trace s' = trace s @ es \<Longrightarrow> new_events s s' = es"
  by (simp add: new_events_def)

lemma switchOffBulb_Inr:
  assumes "switchOffBulb gw room bulb s = (Inr r, s')"
  shows "\<exists>d w w'. get_device gw bulb w = (Inr d, w') \<and>
           trace s' = trace s @ [Connect, GetDevice bulb, SetState (dev_id d) False, Invalidate]"
  using assms
  by (fastforce simp: switchOffBulb_def light_set_state_def run_defs
        split: prod.splits sum.splits option.splits)

lemma switchOnBulb_Inr:
  assumes "switchOnBulb gw room bulb s = (Inr r, s')"
  shows "\<exists>d w w'. get_device gw bulb w = (Inr d, w') \<and>
           trace s' = trace s @ [Connect, GetDevice bulb, SetState (dev_id d) True, Invalidate]"
  using assms
  by (fastforce simp: switchOnBulb_def light_set_state_def run_defs
        split: prod.splits sum.splits option.splits)

lemma setDimmerBulb_Inr:
  assumes "setDimmerBulb gw room bulb v s = (Inr r, s')"
  shows "\<exists>d w w'. get_device gw bulb w = (Inr d, w') \<and>
           trace s' = trace s @ [Connect, GetDevice bulb, SetDimmer (dev_id d) v, Invalidate]"
  using assms
  by (fastforce simp: setDimmerBulb_def light_set_dimmer_def run_defs
        split: prod.splits sum.splits option.splits)

lemma for_members_Cons_Inr:
  assumes "for_members gw h (m # ms) s = (Inr u, s')"
  shows "\<exists>member s1. api (GetDevice m) (get_device gw m) s = (Inr member, s1) \<and>
           trace s1 = trace s @ [GetDevice m] \<and>
           (if has_light_control member
            then \<exists>r s2. h (dev_id member) s1 = (Inr r, s2) \<and>
                   for_members gw h ms s2 = (Inr u, s')
            else for_members gw h ms s1 = (Inr u, s'))"
proof -
  obtain x s1 where a: "api (GetDevice m) (get_device gw m) s = (x, s1)"
    by (cases "api (GetDevice m) (get_device gw m) s")
  then have t: "trace s1 = trace s @ [GetDevice m]"
    by (auto simp: api_def split: prod.splits)
  from assms a obtain member where x: "x = Inr member"
    by (cases x) auto
  have "if has_light_control member
        then \<exists>r s2. h (dev_id member) s1 = (Inr r, s2) \<and> for_members gw h ms s2 = (Inr u, s')
        else for_members gw h ms s1 = (Inr u, s')"
    using assms a x by (auto split: prod.splits sum.splits)
  with a x t show ?thesis by blast
qed

text \<open>Every successful bulb handler adds one light command and one invalidation.\<close>

lemma for_members_counts:
  assumes h: "\<And>b s r s'. h b s = (Inr r, s') \<Longrightarrow>
      \<exists>es. trace s' = trace s @ es \<and> invalidations es = length (light_commands es)"
  shows "for_members gw h ms s = (Inr u, s') \<Longrightarrow>
      \<exists>es. trace s' = trace s @ es \<and> invalidations es = length (light_commands es)"
proof (induction ms arbitrary: s)
  case Nil
  then show ?case by simp
next
  case (Cons m ms)
  from for_members_Cons_Inr [OF Cons.prems] obtain member s1 where
    a: "api (GetDevice m) (get_device gw m) s = (Inr member, s1)"
    and t1: "trace s1 = trace s @ [GetDevice m]"
    and step: "if has_light_control member
        then \<exists>r s2. h (dev_id member) s1 = (Inr r, s2) \<and> for_members gw h ms s2 = (Inr u, s')
        else for_members gw h ms s1 = (Inr u, s')"
    by blast
  have lit: "\<exists>r s2. h (dev_id member) s1 = (Inr r, s2) \<and> for_members gw h ms s2 = (Inr u, s')"
    if "has_light_control member" using step that by simp
  have dark: "for_members gw h ms s1 = (Inr u, s')"
    if "\<not> has_light_control member" using step that by simp
  show ?case
  proof (cases "has_light_control member")
    case False
    from Cons.IH [OF dark [OF False]] obtain es where
      "trace s' = trace s1 @ es" "invalidations es = length (light_commands es)" by auto
    then have "trace s' = trace s @ (GetDevice m # es) \<and>
        invalidations (GetDevice m # es) = length (light_commands (GetDevice m # es))"
      using t1 by simp
    then show ?thesis by blast
  next
    case True
    from lit [OF True] obtain r s2 where
      b: "h (dev_id member) s1 = (Inr r, s2)" and l: "for_members gw h ms s2 = (Inr u, s')"
      by auto
    from h [OF b] obtain es1 where
      e1: "trace s2 = trace s1 @ es1" "invalidations es1 = length (light_commands es1)" by auto
    from Cons.IH [OF l] obtain es2 where
      e2: "trace s' = trace s2 @ es2" "invalidations es2 = length (light_commands es2)" by auto
    have "trace s' = trace s @ ([GetDevice m] @ es1 @ es2) \<and>
        invalidations ([GetDevice m] @ es1 @ es2) =
          length (light_commands ([GetDevice m] @ es1 @ es2))"
      using t1 e1 e2 by simp
    then show ?thesis by blast
  qed
qed

lemma bulb_handler_counts:
  assumes "h = switchOffBulb gw room \<or> h = switchOnBulb gw room \<or>
           h = (\<lambda>bulb. setDimmerBulb gw room bulb v)"
    and "h b s = (Inr r, s')"
  shows "\<exists>es. trace s' = trace s @ es \<and> invalidations es = length (light_commands es)"
proof -
  consider (off) "switchOffBulb gw room b s = (Inr r, s')"
    | (on) "switchOnBulb gw room b s = (Inr r, s')"
    | (dim) "setDimmerBulb gw room b v s = (Inr r, s')"
    using assms by auto
  then show ?thesis
  proof cases
    case off
    from switchOffBulb_Inr [OF off] obtain d :: device where
      "trace s' = trace s @ [Connect, GetDevice b, SetState (dev_id d) False, Invalidate]" by auto
    then show ?thesis by simp
  next
    case on
    from switchOnBulb_Inr [OF on] obtain d :: device where
      "trace s' = trace s @ [Connect, GetDevice b, SetState (dev_id d) True, Invalidate]" by auto
    then show ?thesis by simp
  next
    case dim
    from setDimmerBulb_Inr [OF dim] obtain d :: device where
      "trace s' = trace s @ [Connect, GetDevice b, SetDimmer (dev_id d) v, Invalidate]" by auto
    then show ?thesis by simp
  qed
qed

lemma room_call_eqs:
  "switchOffRoom gw room = room_call gw (switchOffBulb gw room) room"
  "switchOnRoom gw room = room_call gw (switchOnBulb gw room) room"
  "setDimmerRoom gw room v = room_call gw (\<lambda>bulb. setDimmerBulb gw room bulb v) room"
  by (simp_all add: switchOffRoom_def switchOnRoom_def setDimmerRoom_def room_call_def)

lemma room_call_Inr:
  assumes "room_call gw h room s = (Inr r, s')"
  obtains w0 g w1 s2 where "connect gw (world s) = (Inr (), w0)"
    and "get_group gw room w0 = (Inr g, w1)"
    and "for_members gw h (member_ids g)
           (s\<lparr>world := w1, trace := trace s @ [Connect, GetGroup room]\<rparr>) = (Inr (), s2)"
    and "s' = s2\<lparr>CACHED_RESPONSE := None, trace := trace s2 @ [Invalidate]\<rparr>"
  using assms
  by (auto simp: room_call_def run_defs split: prod.splits sum.splits)

lemmas handler_defs = switchOffBulb_def switchOnBulb_def setDimmerBulb_def
  switchOffRoom_def switchOnRoom_def setDimmerRoom_def selectAmbianceRoom_def
  light_set_state_def light_set_dimmer_def has_light_control_def

lemma trace_initial: "trace (initial w) = []"
  by (simp add: initial_def)


lemma room_call_counts:
  assumes h: "h = switchOffBulb gw room \<or> h = switchOnBulb gw room \<or>
           h = (\<lambda>bulb. setDimmerBulb gw room bulb v)"
    and run: "room_call gw h room s = (Inr r, s')"
  shows "invalidations (new_events s s') = length (light_commands (new_events s s')) + 1 \<and>
         last (trace s') = Invalidate"
proof -
  from run obtain w0 g w1 s2 where
    "connect gw (world s) = (Inr (), w0)" "get_group gw room w0 = (Inr g, w1)" and
    loop: "for_members gw h (member_ids g)
             (s\<lparr>world := w1, trace := trace s @ [Connect, GetGroup room]\<rparr>) = (Inr (), s2)"
    and s': "s' = s2\<lparr>CACHED_RESPONSE := None, trace := trace s2 @ [Invalidate]\<rparr>"
    by (rule room_call_Inr)
  have "\<exists>es. trace s2 = trace (s\<lparr>world := w1, trace := trace s @ [Connect, GetGroup room]\<rparr>) @ es \<and>
           invalidations es = length (light_commands es)"
    using loop by (rule for_members_counts [rotated]) (rule bulb_handler_counts [OF h])
  then obtain es where es: "trace s2 = trace s @ [Connect, GetGroup room] @ es"
    and n: "invalidations es = length (light_commands es)" by auto
  have "trace s' = trace s @ ([Connect, GetGroup room] @ es @ [Invalidate])"
    using s' es by simp
  then have "new_events s s' = [Connect, GetGroup room] @ es @ [Invalidate]"
    by (rule new_events_append)
  then show ?thesis using n s' by simp
qed

lemma selectAmbianceRoom_Inr:
  assumes "selectAmbianceRoom gw room a s = (Inr r, s')"
  shows "\<exists>i. trace s' = trace s @ [Connect, GetGroup room, ActivateMood i a, Invalidate]"
  using assms
  by (fastforce simp: selectAmbianceRoom_def run_defs split: prod.splits sum.splits)

lemma switchOffRoom_home:
  "switchOffRoom home ''r'' (initial 0) =
     (Inr '''',
      \<lparr>world = 0, CACHED_RESPONSE = None, LAST_FETCH = None,
       trace = [Connect, GetGroup ''r'',
                GetDevice ''a'', Connect, GetDevice ''a'', SetState ''a'' False, Invalidate,
                GetDevice ''b'',
                GetDevice ''c'', Connect, GetDevice ''c'', SetState ''c'' False, Invalidate,
                Invalidate]\<rparr>)"
  by (simp add: home_def handler_defs run_defs house_defs initial_def)

lemma selectAmbianceRoom_home:
  "selectAmbianceRoom home ''r'' 1 (initial 0) =
     (Inr '''',
      \<lparr>world = 0, CACHED_RESPONSE = None, LAST_FETCH = None,
       trace = [Connect, GetGroup ''r'', ActivateMood ''r'' 1, Invalidate]\<rparr>)"
  by (simp add: home_def handler_defs run_defs house_defs initial_def)

lemma for_members_append:
  "for_members gw h (xs @ ys) s =
     (case for_members gw h xs s of
        (Inl e, s1) \<Rightarrow> (Inl e, s1)
      | (Inr u, s1) \<Rightarrow> for_members gw h ys s1)"
  by (induction xs arbitrary: s) (auto split: prod.splits sum.splits)

lemma room_call_aborts:
  assumes c: "get_gateway_and_api gw s = (Inr u0, s0)"
    and g: "api (GetGroup room) (get_group gw room) s0 = (Inr g, s1)"
    and ms: "member_ids g = before @ m # after"
    and pre: "for_members gw h before s1 = (Inr u1, s2)"
    and mem: "api (GetDevice m) (get_device gw m) s2 = (Inr member, s3)"
    and lit: "has_light_control member"
    and fail: "h (dev_id member) s3 = (Inl e, s4)"
  shows "room_call gw h room s = (Inl e, s4)"
proof -
  have "for_members gw h (m # after) s2 = (Inl e, s4)"
    using mem lit fail by simp
  then have "for_members gw h (member_ids g) s1 = (Inl e, s4)"
    using pre by (simp add: ms for_members_append)
  then show ?thesis using c g by (simp add: room_call_def andthen_def)
qed

section \<open>Room power calls on a gateway with fixed light capabilities\<close>










section \<open>The description builder and unknown members\<close>

text \<open>
  Claim C1. The specification says that a room whose member list holds an id that is
  absent from the device index builds successfully, the id being left out of the bulb
  list. Line 98 does look the id up with \<^verbatim>\<open>device_index.get(dev_id, None)\<close>, which
  tolerates the missing id, but line 127 then reads \<^verbatim>\<open>device.has_light_control\<close> on the
  \<^verbatim>\<open>None\<close> it got. In the house whose room lists the lamp \<open>a\<close> and an id \<open>ghost\<close> that
  no device has, the build raises \<^verbatim>\<open>AttributeError\<close> after the room's moods were
  fetched, and returns no description.
\<close>

theorem missing_member_breaks_build:
  "fetch_description (house True [''a'', ''ghost''] []) (initial 0) =
     (Inl AttributeError,
      \<lparr>world = 0, CACHED_RESPONSE = None, LAST_FETCH = None,
       trace = [Connect, ListDevices, ListGroups, ActiveMood ''r'', ListMoods ''r'']\<rparr>)
   \<and> device_index [lamp ''a'', remote ''b'', lamp ''c''] ''ghost'' = None"
  by (simp add: fetch_description_def room_view_def device_index_def run_defs house_defs initial_def)

section \<open>The device routes ignore the room segment\<close>

text \<open>
  Claim C9. For each of the three device routes (bulb off, bulb on, bulb dimmer), two
  calls that differ only in the room segment are the same function of the state: from
  the same state they issue the same requests, leave the same state and return the
  same result.
\<close>

theorem room_segment_unused:
  "switchOffBulb gw room1 bulb = switchOffBulb gw room2 bulb \<and>
   switchOnBulb gw room1 bulb = switchOnBulb gw room2 bulb \<and>
   setDimmerBulb gw room1 bulb v = setDimmerBulb gw room2 bulb v"
  by (simp add: switchOffBulb_def switchOnBulb_def setDimmerBulb_def)

section \<open>A failed rebuild\<close>

text \<open>
  Claim C4. When \<^verbatim>\<open>get_description\<close> decides to rebuild and the builder raises, the
  exception reaches the caller, no description is returned, and the cached value and
  the timestamp are what they were before the call.
\<close>

theorem failed_rebuild_keeps_cache:
  assumes "must_fetch gw s = Inr True" and "fetch_description gw s = (Inl e, s')"
  shows "get_description gw s = (Inl e, s') \<and>
         CACHED_RESPONSE s' = CACHED_RESPONSE s \<and> LAST_FETCH s' = LAST_FETCH s"
  using assms fetch_description_cache [OF assms(2)]
  by (simp add: get_description_def refresh_def)

text \<open>
  The stale cache, with a configuration that cannot be read: the old description
  \<open>[]\<close> stays in the cache and is not returned.
\<close>

theorem failed_rebuild_keeps_cache_witness:
  "must_fetch (house False [] []) stale_cache = Inr True \<and>
   fetch_description (house False [] []) stale_cache =
     (Inl GatewayError, stale_cache\<lparr>trace := [Connect]\<rparr>) \<and>
   get_description (house False [] []) stale_cache =
     (Inl GatewayError, stale_cache\<lparr>trace := [Connect]\<rparr>) \<and>
   CACHED_RESPONSE (stale_cache\<lparr>trace := [Connect]\<rparr>) = Some [] \<and>
   LAST_FETCH (stale_cache\<lparr>trace := [Connect]\<rparr>) = Some 0"
proof -
  have 1: "must_fetch (house False [] []) stale_cache = Inr True"
    by (simp add: must_fetch_def stale_cache_def house_def)
  have 2: "fetch_description (house False [] []) stale_cache =
     (Inl GatewayError, stale_cache\<lparr>trace := [Connect]\<rparr>)"
    by (simp add: fetch_description_def run_defs stale_cache_def house_def)
  show ?thesis
    using failed_rebuild_keeps_cache [OF 1 2] 1 2 by (simp add: stale_cache_def)
qed

section \<open>Invalidation forces a rebuild\<close>


section \<open>When the builder runs\<close>

text \<open>
  Claim C3. In every state that the process can reach, \<^verbatim>\<open>get_description\<close> runs the
  builder if and only if the cached value is absent or the clock is more than ten
  seconds past the timestamp stored by the last successful rebuild. When it runs the
  builder, it returns and stores what the builder returns (or raises what it raises),
  and the trace has grown by the builder's requests. Otherwise it returns the cached
  description and leaves the whole state, world and trace included, as it was: nothing
  was asked of the gateway.
\<close>

theorem rebuild_iff_absent_or_expired:
  assumes "reachable gw s"
  shows "if rebuild_due gw s
         then get_description gw s =
                (case fetch_description gw s of
                   (Inl e, s') \<Rightarrow> (Inl e, s')
                 | (Inr d, s') \<Rightarrow>
                     (Inr (Some d),
                      s'\<lparr>CACHED_RESPONSE := Some d, LAST_FETCH := Some (time gw (world s'))\<rparr>))
              \<and> trace (snd (get_description gw s)) \<noteq> trace s
         else get_description gw s = (Inr (CACHED_RESPONSE s), s) \<and> CACHED_RESPONSE s \<noteq> None"
proof (cases "rebuild_due gw s")
  case True
  have inv: "CACHED_RESPONSE s \<noteq> None \<longrightarrow> LAST_FETCH s \<noteq> None"
    using assms by (rule reachable_timestamped)
  have m: "must_fetch gw s = Inr True"
    using True inv by (auto simp: rebuild_due_def must_fetch_def split: option.splits)
  obtain r s2 where f: "fetch_description gw s = (r, s2)" by (cases "fetch_description gw s")
  have g: "get_description gw s =
        (case fetch_description gw s of
           (Inl e, s') \<Rightarrow> (Inl e, s')
         | (Inr d, s') \<Rightarrow>
             (Inr (Some d),
              s'\<lparr>CACHED_RESPONSE := Some d, LAST_FETCH := Some (time gw (world s'))\<rparr>))"
    using m by (simp add: get_description_def refresh_def split: prod.splits sum.splits)
  obtain es where t: "trace s2 = trace s @ Connect # es"
    using fetch_description_trace [of gw s] f by auto
  have "trace (snd (get_description gw s)) = trace s2"
    using g f by (simp split: sum.splits)
  then have "trace (snd (get_description gw s)) \<noteq> trace s" using t by simp
  with g True show ?thesis by simp
next
  case False
  have inv: "CACHED_RESPONSE s \<noteq> None \<longrightarrow> LAST_FETCH s \<noteq> None"
    using assms by (rule reachable_timestamped)
  with False obtain d t where c: "CACHED_RESPONSE s = Some d" and l: "LAST_FETCH s = Some t"
    and a: "\<not> time gw (world s) - t > 10"
    by (auto simp: rebuild_due_def split: option.splits)
  have "must_fetch gw s = Inr False" using c l a by (simp add: must_fetch_def)
  then show ?thesis using False c by (simp add: get_description_def)
qed

text \<open>
  At the start the cache is empty and the builder runs; ten seconds after the cache
  was filled it is still served from the cache; eleven seconds after, the builder runs
  again.
\<close>

theorem rebuild_iff_absent_or_expired_witness:
  "reachable home (initial 0) \<and> rebuild_due home (initial 0) \<and>
   trace (snd (get_description home (initial 0))) \<noteq> trace (initial (0::nat)) \<and>
   reachable home (filled_at_0\<lparr>world := 10\<rparr>) \<and> \<not> rebuild_due home (filled_at_0\<lparr>world := 10\<rparr>) \<and>
   get_description home (filled_at_0\<lparr>world := 10\<rparr>) =
     (Inr (CACHED_RESPONSE filled_at_0), filled_at_0\<lparr>world := 10\<rparr>) \<and>
   reachable home (filled_at_0\<lparr>world := 11\<rparr>) \<and> rebuild_due home (filled_at_0\<lparr>world := 11\<rparr>) \<and>
   trace (snd (get_description home (filled_at_0\<lparr>world := 11\<rparr>))) \<noteq> trace filled_at_0"
proof -
  have r0: "reachable home (initial 0)" by (rule reachable.start)
  have r10: "reachable home (filled_at_0\<lparr>world := 10\<rparr>)"
    by (intro reachable.outside reachable_filled_at_0)
  have r11: "reachable home (filled_at_0\<lparr>world := 11\<rparr>)"
    by (intro reachable.outside reachable_filled_at_0)
  have d0: "rebuild_due home (initial 0)" by (simp add: rebuild_due_def initial_def)
  have d10: "\<not> rebuild_due home (filled_at_0\<lparr>world := 10\<rparr>)"
    by (simp add: rebuild_due_def filled_at_0_eq home_def house_def)
  have d11: "rebuild_due home (filled_at_0\<lparr>world := 11\<rparr>)"
    by (simp add: rebuild_due_def filled_at_0_eq home_def house_def)
  have t0: "trace (snd (get_description home (initial 0))) \<noteq> trace (initial (0::nat))"
    by (rule conjunct2 [OF iffD1 [OF if_P [OF d0] rebuild_iff_absent_or_expired [OF r0]]])
  have g10: "get_description home (filled_at_0\<lparr>world := 10\<rparr>) =
      (Inr (CACHED_RESPONSE (filled_at_0\<lparr>world := 10\<rparr>)), filled_at_0\<lparr>world := 10\<rparr>)"
    by (rule conjunct1 [OF iffD1 [OF if_not_P [OF d10] rebuild_iff_absent_or_expired [OF r10]]])
  have t11: "trace (snd (get_description home (filled_at_0\<lparr>world := 11\<rparr>))) \<noteq>
      trace (filled_at_0\<lparr>world := 11\<rparr>)"
    by (rule conjunct2 [OF iffD1 [OF if_P [OF d11] rebuild_iff_absent_or_expired [OF r11]]])
  have c: "CACHED_RESPONSE (filled_at_0\<lparr>world := 10\<rparr>) = CACHED_RESPONSE filled_at_0"
    and tr: "trace (filled_at_0\<lparr>world := 11\<rparr>) = trace filled_at_0"
    by simp_all
  show ?thesis
    using r0 r10 r11 d0 d10 d11 t0 g10 [unfolded c] t11 [unfolded tr] by (intro conjI)
qed

section \<open>The age test always finds a timestamp\<close>

text \<open>
  Claim C10. In every reachable state, a cached value that is present has a timestamp
  that is present. So the condition of line 166 never evaluates
  \<^verbatim>\<open>time.time() - LAST_FETCH\<close> with \<^verbatim>\<open>LAST_FETCH\<close> absent: the left operand of
  \<^verbatim>\<open>or\<close> is true whenever the timestamp is absent, and the subtraction is skipped.
\<close>

theorem age_test_has_timestamp:
  assumes "reachable gw s"
  shows "(CACHED_RESPONSE s \<noteq> None \<longrightarrow> LAST_FETCH s \<noteq> None) \<and> must_fetch gw s \<noteq> Inl TypeError"
proof -
  have inv: "CACHED_RESPONSE s \<noteq> None \<longrightarrow> LAST_FETCH s \<noteq> None"
    using assms by (rule reachable_timestamped)
  then have "must_fetch gw s \<noteq> Inl TypeError"
    by (auto simp: must_fetch_def split: option.splits)
  with inv show ?thesis by simp
qed

theorem age_test_has_timestamp_witness:
  "reachable home filled_at_0 \<and> CACHED_RESPONSE filled_at_0 \<noteq> None \<and>
   LAST_FETCH filled_at_0 \<noteq> None \<and> must_fetch home filled_at_0 \<noteq> Inl TypeError"
  using age_test_has_timestamp [OF reachable_filled_at_0] reachable_filled_at_0
  by (simp add: filled_at_0_eq)

section \<open>The invariant of the cache entry\<close>

text \<open>
  Claim C8 says that the value is absent if and only if the timestamp is absent, in
  the initial state and after every operation of the cache. That fails for
  \<^verbatim>\<open>invalidate_description\<close>, which assigns \<^verbatim>\<open>CACHED_RESPONSE\<close> only: on the cache
  filled at second 0 it leaves the value absent and the timestamp present.
\<close>

theorem invalidate_keeps_timestamp_counterexample:
  "(CACHED_RESPONSE filled_at_0 = None) = (LAST_FETCH filled_at_0 = None) \<and>
   CACHED_RESPONSE (snd (invalidate_description filled_at_0)) = None \<and>
   LAST_FETCH (snd (invalidate_description filled_at_0)) = Some 0 \<and>
   \<not> ((CACHED_RESPONSE (snd (invalidate_description filled_at_0)) = None) =
       (LAST_FETCH (snd (invalidate_description filled_at_0)) = None))"
  by (simp add: filled_at_0_eq invalidate_description_def)

text \<open>
  Claim C8, amended. Initially both the value and the timestamp are absent. The
  invariant `a present value has a present timestamp' is preserved by
  \<^verbatim>\<open>get_description\<close>, whether the rebuild succeeds or fails, and by
  \<^verbatim>\<open>invalidate_description\<close>. \<^verbatim>\<open>get_description\<close> also preserves `absent if and only if
  absent'; \<^verbatim>\<open>invalidate_description\<close> clears the value and keeps the timestamp.
\<close>

theorem cache_value_has_timestamp:
  "(CACHED_RESPONSE (initial w) = None \<and> LAST_FETCH (initial w) = None) \<and>
   ((CACHED_RESPONSE s \<noteq> None \<longrightarrow> LAST_FETCH s \<noteq> None) \<longrightarrow>
      (CACHED_RESPONSE (snd (get_description gw s)) \<noteq> None \<longrightarrow>
         LAST_FETCH (snd (get_description gw s)) \<noteq> None)) \<and>
   ((CACHED_RESPONSE s = None) = (LAST_FETCH s = None) \<longrightarrow>
      (CACHED_RESPONSE (snd (get_description gw s)) = None) =
        (LAST_FETCH (snd (get_description gw s)) = None)) \<and>
   ((CACHED_RESPONSE s \<noteq> None \<longrightarrow> LAST_FETCH s \<noteq> None) \<longrightarrow>
      (CACHED_RESPONSE (snd (invalidate_description s)) \<noteq> None \<longrightarrow>
         LAST_FETCH (snd (invalidate_description s)) \<noteq> None)) \<and>
   CACHED_RESPONSE (snd (invalidate_description s)) = None \<and>
   LAST_FETCH (snd (invalidate_description s)) = LAST_FETCH s"
proof -
  have 1: "CACHED_RESPONSE (initial w) = None \<and> LAST_FETCH (initial w) = None"
    by (simp add: initial_def)
  have 2: "CACHED_RESPONSE (snd (invalidate_description s)) = None \<and>
           LAST_FETCH (snd (invalidate_description s)) = LAST_FETCH s"
    by (simp add: invalidate_description_def)
  have 3: "(CACHED_RESPONSE s \<noteq> None \<longrightarrow> LAST_FETCH s \<noteq> None) \<longrightarrow>
      (CACHED_RESPONSE (snd (get_description gw s)) \<noteq> None \<longrightarrow>
         LAST_FETCH (snd (get_description gw s)) \<noteq> None)"
    by (rule impI) (rule get_description_timestamped)
  have 4: "(CACHED_RESPONSE s = None) = (LAST_FETCH s = None) \<longrightarrow>
      (CACHED_RESPONSE (snd (get_description gw s)) = None) =
        (LAST_FETCH (snd (get_description gw s)) = None)"
    by (rule impI) (rule get_description_absent_together)
  have 5: "(CACHED_RESPONSE s \<noteq> None \<longrightarrow> LAST_FETCH s \<noteq> None) \<longrightarrow>
      (CACHED_RESPONSE (snd (invalidate_description s)) \<noteq> None \<longrightarrow>
         LAST_FETCH (snd (invalidate_description s)) \<noteq> None)"
    using 2 by simp
  show ?thesis
    using 1 2 3 4 5 by (intro conjI) (elim conjE, assumption)+
qed

theorem cache_value_has_timestamp_witness:
  "CACHED_RESPONSE filled_at_0 \<noteq> None \<and> LAST_FETCH filled_at_0 \<noteq> None \<and>
   CACHED_RESPONSE (snd (get_description home filled_at_0)) \<noteq> None \<and>
   LAST_FETCH (snd (get_description home filled_at_0)) \<noteq> None \<and>
   CACHED_RESPONSE (snd (invalidate_description filled_at_0)) = None \<and>
   LAST_FETCH (snd (invalidate_description filled_at_0)) = Some 0"
proof -
  have c: "CACHED_RESPONSE filled_at_0 \<noteq> None" and l: "LAST_FETCH filled_at_0 = Some 0"
    by (simp_all add: filled_at_0_eq)
  have g: "CACHED_RESPONSE (snd (get_description home filled_at_0)) \<noteq> None"
    by (simp add: filled_at_0_eq get_description_def must_fetch_def home_def house_def)
  show ?thesis
    using cache_value_has_timestamp [of 0 filled_at_0 home] c l g by (simp only:) blast
qed

section \<open>How often a room call invalidates\<close>

text \<open>
  Claim C2 says that a room-level call invalidates the cache exactly once, after all
  members, and never once per member. The room handlers call the bulb handlers
  (lines 232, 246, 260), and each bulb handler ends with its own
  \<^verbatim>\<open>invalidate_description()\<close> (lines 195, 207, 219). Switching off the room of the house,
  with its two lamps and one remote control, invalidates three times: after the command
  to \<open>a\<close>, before \<open>b\<close> and \<open>c\<close> are even fetched, after the command to \<open>c\<close>, and at the
  end.
\<close>

theorem room_off_invalidates_three_times_counterexample:
  "switchOffRoom home ''r'' (initial 0) =
     (Inr '''',
      \<lparr>world = 0, CACHED_RESPONSE = None, LAST_FETCH = None,
       trace = [Connect, GetGroup ''r'',
                GetDevice ''a'', Connect, GetDevice ''a'', SetState ''a'' False, Invalidate,
                GetDevice ''b'',
                GetDevice ''c'', Connect, GetDevice ''c'', SetState ''c'' False, Invalidate,
                Invalidate]\<rparr>) \<and>
   invalidations (new_events (initial 0) (snd (switchOffRoom home ''r'' (initial 0)))) = 3"
  by (simp add: switchOffRoom_home new_events_def trace_initial)

text \<open>
  Claim C2, amended. A call of \<^verbatim>\<open>switchOffRoom\<close>, \<^verbatim>\<open>switchOnRoom\<close> or \<^verbatim>\<open>setDimmerRoom\<close>
  that returns has invalidated the cache once for every light command it issued, inside
  the bulb handler of that member, and once more at the end: the number of
  invalidations is the number of light commands plus one. A call of
  \<^verbatim>\<open>selectAmbianceRoom\<close> that returns has invalidated exactly once. In both cases the
  last step of the call is an invalidation.
\<close>

theorem room_calls_invalidate_after_each_command:
  "(run \<in> {switchOffRoom gw room, switchOnRoom gw room, setDimmerRoom gw room v} \<longrightarrow>
      run s = (Inr r, s') \<longrightarrow>
        invalidations (new_events s s') = length (light_commands (new_events s s')) + 1 \<and>
        last (trace s') = Invalidate) \<and>
   (selectAmbianceRoom gw room a s = (Inr r, s') \<longrightarrow>
      invalidations (new_events s s') = 1 \<and> last (trace s') = Invalidate)"
proof (intro conjI impI)
  assume run: "run \<in> {switchOffRoom gw room, switchOnRoom gw room, setDimmerRoom gw room v}"
    and ok: "run s = (Inr r, s')"
  then obtain h where h: "h = switchOffBulb gw room \<or> h = switchOnBulb gw room \<or>
           h = (\<lambda>bulb. setDimmerBulb gw room bulb v)" and "run = room_call gw h room"
    by (auto simp: room_call_eqs)
  with ok have "room_call gw h room s = (Inr r, s')" by simp
  from room_call_counts [OF h this]
  show "invalidations (new_events s s') = length (light_commands (new_events s s')) + 1"
    and "last (trace s') = Invalidate" by simp_all
next
  assume "selectAmbianceRoom gw room a s = (Inr r, s')"
  from selectAmbianceRoom_Inr [OF this] obtain i where
    t: "trace s' = trace s @ [Connect, GetGroup room, ActivateMood i a, Invalidate]" by auto
  then have "new_events s s' = [Connect, GetGroup room, ActivateMood i a, Invalidate]"
    by (rule new_events_append)
  then show "invalidations (new_events s s') = 1" and "last (trace s') = Invalidate"
    using t by simp_all
qed

theorem room_calls_invalidate_after_each_command_witness:
  "switchOffRoom home ''r'' \<in> {switchOffRoom home ''r'', switchOnRoom home ''r'', setDimmerRoom home ''r'' 0} \<and>
   fst (switchOffRoom home ''r'' (initial 0)) = Inr '''' \<and>
   length (light_commands (new_events (initial 0) (snd (switchOffRoom home ''r'' (initial 0))))) = 2 \<and>
   invalidations (new_events (initial 0) (snd (switchOffRoom home ''r'' (initial 0)))) = 3 \<and>
   last (trace (snd (switchOffRoom home ''r'' (initial 0)))) = Invalidate \<and>
   fst (selectAmbianceRoom home ''r'' 1 (initial 0)) = Inr '''' \<and>
   invalidations (new_events (initial 0) (snd (selectAmbianceRoom home ''r'' 1 (initial 0)))) = 1 \<and>
   last (trace (snd (selectAmbianceRoom home ''r'' 1 (initial 0)))) = Invalidate"
proof -
  let ?run = "switchOffRoom home ''r''"
  have m: "?run \<in> {switchOffRoom home ''r'', switchOnRoom home ''r'', setDimmerRoom home ''r'' 0}"
    by simp
  have ok: "?run (initial 0) = (Inr '''', snd (?run (initial 0)))"
    by (simp add: switchOffRoom_home)
  have ok2: "selectAmbianceRoom home ''r'' 1 (initial 0) =
      (Inr '''', snd (selectAmbianceRoom home ''r'' 1 (initial 0)))"
    by (simp add: selectAmbianceRoom_home)
  note inst1 = room_calls_invalidate_after_each_command
    [of ?run home "''r''" 0 "initial 0" "''''" "snd (?run (initial 0))"]
  note inst2 = room_calls_invalidate_after_each_command
    [of ?run home "''r''" 0 "initial 0" "''''" "snd (selectAmbianceRoom home ''r'' 1 (initial 0))" 1]
  have a: "invalidations (new_events (initial 0) (snd (?run (initial 0)))) =
      length (light_commands (new_events (initial 0) (snd (?run (initial 0))))) + 1 \<and>
      last (trace (snd (?run (initial 0)))) = Invalidate"
    by (rule mp [OF mp [OF conjunct1 [OF inst1] m] ok])
  have b: "invalidations (new_events (initial 0) (snd (selectAmbianceRoom home ''r'' 1 (initial 0)))) = 1 \<and>
      last (trace (snd (selectAmbianceRoom home ''r'' 1 (initial 0)))) = Invalidate"
    by (rule mp [OF conjunct2 [OF inst2] ok2])
  have c: "length (light_commands (new_events (initial 0) (snd (?run (initial 0))))) = 2"
    by (simp add: switchOffRoom_home new_events_def trace_initial)
  have d: "fst (?run (initial 0)) = Inr ''''" by (simp add: switchOffRoom_home)
  have e: "fst (selectAmbianceRoom home ''r'' 1 (initial 0)) = Inr ''''"
    by (simp add: selectAmbianceRoom_home)
  show ?thesis using m a b c d e by simp
qed

section \<open>A member that fails\<close>

text \<open>
  Claim C6 says that the failure of one member's command does not stop the fan-out.
  No handler catches an exception. In the house whose lamp \<open>a\<close> rejects commands,
  setting the dimmer of the room raises at \<open>a\<close>; the lamp \<open>c\<close>, listed after it, is
  never fetched.
\<close>

theorem dimmer_fanout_stops_counterexample:
  "setDimmerRoom flaky ''r'' 200 (initial 0) =
     (Inl GatewayError,
      at_start [Connect, GetGroup ''r'', GetDevice ''b'',
                GetDevice ''a'', Connect, GetDevice ''a'', SetDimmer ''a'' 200]) \<and>
   member_ids (house_room [''b'', ''a'', ''c'']) = [''b'', ''a'', ''c''] \<and>
   has_light_control (house_device ''c'') \<and>
   GetDevice ''c'' \<notin> set (trace (snd (setDimmerRoom flaky ''r'' 200 (initial 0))))"
  by (simp add: flaky_def handler_defs run_defs house_defs initial_def at_start_def)

text \<open>
  Claim C6, amended. In a room-level power or dimmer call, when the bulb handler of a
  light-capable member raises, the room handler raises the same exception and ends in
  the state that the bulb handler had reached: no later member is fetched or
  commanded, and the final invalidation does not take place.
\<close>

theorem member_failure_aborts_fanout:
  assumes "(h, run) \<in> {(switchOffBulb gw room, switchOffRoom gw room),
                       (switchOnBulb gw room, switchOnRoom gw room),
                       (\<lambda>bulb. setDimmerBulb gw room bulb v, setDimmerRoom gw room v)}"
    and "get_gateway_and_api gw s = (Inr u0, s0)"
    and "api (GetGroup room) (get_group gw room) s0 = (Inr g, s1)"
    and "member_ids g = before @ m # after"
    and "for_members gw h before s1 = (Inr u1, s2)"
    and "api (GetDevice m) (get_device gw m) s2 = (Inr member, s3)"
    and "has_light_control member"
    and "h (dev_id member) s3 = (Inl e, s4)"
  shows "run s = (Inl e, s4)"
proof -
  have "run = room_call gw h room"
    using assms(1) by (auto simp: room_call_eqs)
  then show ?thesis
    using room_call_aborts [OF assms(2-8)] by simp
qed

theorem member_failure_aborts_fanout_witness:
  "switchOffRoom flaky ''r'' (initial 0) =
     (Inl GatewayError,
      at_start [Connect, GetGroup ''r'', GetDevice ''b'',
                GetDevice ''a'', Connect, GetDevice ''a'', SetState ''a'' False])"
proof -
  have 1: "(switchOffBulb flaky ''r'', switchOffRoom flaky ''r'') \<in>
      {(switchOffBulb flaky ''r'', switchOffRoom flaky ''r''),
       (switchOnBulb flaky ''r'', switchOnRoom flaky ''r''),
       (\<lambda>bulb. setDimmerBulb flaky ''r'' bulb 0, setDimmerRoom flaky ''r'' 0)}"
    by simp
  have 2: "get_gateway_and_api flaky (initial 0) = (Inr (), at_start [Connect])"
    by (simp add: flaky_def run_defs house_defs initial_def at_start_def)
  have 3: "api (GetGroup ''r'') (get_group flaky ''r'') (at_start [Connect]) =
      (Inr (house_room [''b'', ''a'', ''c'']), at_start [Connect, GetGroup ''r''])"
    by (simp add: flaky_def run_defs house_def at_start_def)
  have 4: "member_ids (house_room [''b'', ''a'', ''c'']) = [''b''] @ ''a'' # [''c'']"
    by (simp add: house_room_def)
  have 5: "for_members flaky (switchOffBulb flaky ''r'') [''b''] (at_start [Connect, GetGroup ''r'']) =
      (Inr (), at_start [Connect, GetGroup ''r'', GetDevice ''b''])"
    by (simp add: flaky_def handler_defs run_defs house_defs at_start_def)
  have 6: "api (GetDevice ''a'') (get_device flaky ''a'')
        (at_start [Connect, GetGroup ''r'', GetDevice ''b'']) =
      (Inr (lamp ''a''), at_start [Connect, GetGroup ''r'', GetDevice ''b'', GetDevice ''a''])"
    by (simp add: flaky_def run_defs house_def house_device_def at_start_def)
  have 7: "has_light_control (lamp ''a'')"
    by (simp add: has_light_control_def lamp_def)
  have 8: "switchOffBulb flaky ''r'' (dev_id (lamp ''a''))
        (at_start [Connect, GetGroup ''r'', GetDevice ''b'', GetDevice ''a'']) =
      (Inl GatewayError,
       at_start [Connect, GetGroup ''r'', GetDevice ''b'',
                 GetDevice ''a'', Connect, GetDevice ''a'', SetState ''a'' False])"
    by (simp add: flaky_def handler_defs run_defs house_defs at_start_def)
  show ?thesis
    by (rule member_failure_aborts_fanout [OF 1 2 3 4 5 6 7 8])
qed

section \<open>Which members a room power call commands\<close>




end
